theory Spec2Isabelle
  imports Complex_Main "HOL-Library.Sublist"
begin

section \<open>JavaScript strings\<close>

text \<open>
  A JavaScript string is modelled as a \<^typ>\<open>string\<close>: one \<^typ>\<open>char\<close> per code unit,
  for the code units below 256 (ASCII and Latin-1). The string methods the dashboard
  uses are written out below with the behaviour they have on such strings.
\<close>

definition isWhiteSpace :: "char \<Rightarrow> bool" where
  \<comment> \<open>WhiteSpace and LineTerminator code units below 256: TAB, LF, VT, FF, CR, SP, NBSP.\<close>
  "isWhiteSpace c \<longleftrightarrow> c \<in> set [CHR 0x09, CHR 0x0A, CHR 0x0B, CHR 0x0C, CHR 0x0D, CHR 0x20, CHR 0xA0]"

definition trim :: "string \<Rightarrow> string" where
  \<comment> \<open>\<^verbatim>\<open>String.prototype.trim\<close>\<close>
  "trim s = rev (dropWhile isWhiteSpace (rev (dropWhile isWhiteSpace s)))"

definition lowerChar :: "char \<Rightarrow> char" where
  \<comment> \<open>lower-casing of one code unit below 256: A-Z, and the Latin-1 capitals 0xC0-0xDE
      without the multiplication sign 0xD7\<close>
  "lowerChar c =
     (let n = of_char c :: nat in
      if (65 \<le> n \<and> n \<le> 90) \<or> (192 \<le> n \<and> n \<le> 222 \<and> n \<noteq> 215) then char_of (n + 32) else c)"

definition toLowerCase :: "string \<Rightarrow> string" where
  \<comment> \<open>\<^verbatim>\<open>String.prototype.toLowerCase\<close>\<close>
  "toLowerCase s = map lowerChar s"

definition startsWith :: "string \<Rightarrow> string \<Rightarrow> bool" where
  \<comment> \<open>\<^verbatim>\<open>s.startsWith(p)\<close>\<close>
  "startsWith s p \<longleftrightarrow> prefix p s"

definition endsWith :: "string \<Rightarrow> string \<Rightarrow> bool" where
  \<comment> \<open>\<^verbatim>\<open>s.endsWith(p)\<close>\<close>
  "endsWith s p \<longleftrightarrow> suffix p s"

fun split :: "string \<Rightarrow> char \<Rightarrow> string list" where
  \<comment> \<open>\<^verbatim>\<open>s.split(sep)\<close> for a separator of one character: never empty,
      one more part than there are separators\<close>
  "split [] sep = [[]]"
| "split (c # cs) sep =
     (if c = sep then [] # split cs sep
      else (c # hd (split cs sep)) # tl (split cs sep))"

section \<open>HtmlWidget.tsx: content classification and CSV parsing\<close>

datatype ContentType = Html | Markdown | Csv | Image | Unknown

definition IMAGE_EXTENSIONS :: "string list" where
  "IMAGE_EXTENSIONS = [''.png'', ''.jpg'', ''.jpeg'', ''.gif'', ''.webp'', ''.svg'', ''.bmp'', ''.ico'']"

definition isImageUrl :: "string \<Rightarrow> bool" where
  "isImageUrl url =
     (let lowerUrl = hd (split (toLowerCase url) (CHR ''?''))
      in list_ex (\<lambda>ext. endsWith lowerUrl ext) IMAGE_EXTENSIONS)"

subsection \<open>The regular expressions of \<open>detectContentType\<close>\<close>

definition isLineTerminator :: "char \<Rightarrow> bool" where
  \<comment> \<open>the characters that \<^verbatim>\<open>.\<close> does not match (below 256: LF and CR)\<close>
  "isLineTerminator c \<longleftrightarrow> c = CHR 0x0A \<or> c = CHR 0x0D"

definition isDigit :: "char \<Rightarrow> bool" where
  "isDigit c \<longleftrightarrow> (48 :: nat) \<le> of_char c \<and> (of_char c :: nat) \<le> 57"

definition isLetter :: "char \<Rightarrow> bool" where
  \<comment> \<open>\<^verbatim>\<open>[a-z]\<close> under the flag \<^verbatim>\<open>i\<close>\<close>
  "isLetter c \<longleftrightarrow> ((97 :: nat) \<le> of_char c \<and> (of_char c :: nat) \<le> 122)
                 \<or> ((65 :: nat) \<le> of_char c \<and> (of_char c :: nat) \<le> 90)"

fun afterFirst :: "string \<Rightarrow> string \<Rightarrow> string option" where
  \<comment> \<open>what follows the first occurrence of \<open>p\<close> in \<open>s\<close>, if there is one\<close>
  "afterFirst p [] = (if p = [] then Some [] else None)"
| "afterFirst p (c # cs) =
     (if prefix p (c # cs) then Some (drop (length p) (c # cs)) else afterFirst p cs)"

definition dotRun :: "string \<Rightarrow> string" where
  \<comment> \<open>the longest prefix that \<^verbatim>\<open>.*\<close> can match\<close>
  "dotRun s = takeWhile (\<lambda>c. \<not> isLineTerminator c) s"

definition reBold :: "string \<Rightarrow> bool" where
  \<comment> \<open>\<^verbatim>\<open>/^\*\*.*\*\*/\<close>\<close>
  "reBold s \<longleftrightarrow> startsWith s ''**'' \<and> afterFirst ''**'' (dotRun (drop 2 s)) \<noteq> None"

definition reBullet :: "string \<Rightarrow> bool" where
  \<comment> \<open>\<^verbatim>\<open>/^[-*+] /\<close>\<close>
  "reBullet s \<longleftrightarrow> (case s of a # b # _ \<Rightarrow> a \<in> set ''-*+'' \<and> b = CHR '' '' | _ \<Rightarrow> False)"

definition reNumbered :: "string \<Rightarrow> bool" where
  \<comment> \<open>\<^verbatim>\<open>/^\d+\. /\<close>\<close>
  "reNumbered s \<longleftrightarrow> takeWhile isDigit s \<noteq> [] \<and> startsWith (dropWhile isDigit s) ''. ''"

definition linkInLine :: "string \<Rightarrow> bool" where
  \<comment> \<open>\<^verbatim>\<open>\[.*\]\(.*\)\<close> inside a text without line terminators\<close>
  "linkInLine l \<longleftrightarrow>
     (case afterFirst ''['' l of None \<Rightarrow> False
      | Some r \<Rightarrow> (case afterFirst '']('' r of None \<Rightarrow> False
         | Some r' \<Rightarrow> afterFirst '')'' r' \<noteq> None))"

fun splitLines :: "string \<Rightarrow> string list" where
  \<comment> \<open>the maximal runs without line terminators\<close>
  "splitLines [] = [[]]"
| "splitLines (c # cs) =
     (if isLineTerminator c then [] # splitLines cs
      else (c # hd (splitLines cs)) # tl (splitLines cs))"

definition reLink :: "string \<Rightarrow> bool" where
  \<comment> \<open>\<^verbatim>\<open>/\[.*\]\(.*\)/\<close>: not anchored, and \<^verbatim>\<open>.\<close> stays inside one line\<close>
  "reLink s \<longleftrightarrow> list_ex linkInLine (splitLines s)"

fun reTag :: "string \<Rightarrow> bool" where
  \<comment> \<open>\<^verbatim>\<open>/<[a-z][\s\S]*>/i\<close>\<close>
  "reTag (a # b # rest) \<longleftrightarrow> (a = CHR ''<'' \<and> isLetter b \<and> CHR ''>'' \<in> set rest) \<or> reTag (b # rest)"
| "reTag _ \<longleftrightarrow> False"

subsection \<open>\<open>detectContentType\<close>\<close>

definition countCommas :: "string \<Rightarrow> nat" where
  \<comment> \<open>\<^verbatim>\<open>(line.match(/,/g) || []).length\<close>\<close>
  "countCommas line = length (filter (\<lambda>c. c = CHR '','') line)"

definition detectFromUrl :: "string option \<Rightarrow> ContentType option" where
  \<comment> \<open>the block \<^verbatim>\<open>if (url) { ... }\<close>: \<open>Some t\<close> when it returns \<open>t\<close>, \<open>None\<close> when control
      goes on to the content. \<^verbatim>\<open>undefined\<close> is \<open>None\<close>; the empty string is falsy too.\<close>
  "detectFromUrl url =
     (case url of
        None \<Rightarrow> None
      | Some u \<Rightarrow>
          if u = [] then None
          else
            let lowerUrl = hd (split (toLowerCase u) (CHR ''?'')) in
            if list_ex (\<lambda>ext. endsWith lowerUrl ext) IMAGE_EXTENSIONS then Some Image
            else if endsWith lowerUrl ''.md'' \<or> endsWith lowerUrl ''.markdown'' then Some Markdown
            else if endsWith lowerUrl ''.csv'' then Some Csv
            else if endsWith lowerUrl ''.html'' \<or> endsWith lowerUrl ''.htm'' then Some Html
            else None)"

definition startsHtmlDocument :: "string \<Rightarrow> bool" where
  \<comment> \<open>the test of the first \<^verbatim>\<open>if\<close> on the trimmed content\<close>
  "startsHtmlDocument trimmed \<longleftrightarrow>
     startsWith trimmed ''<!DOCTYPE'' \<or> startsWith trimmed ''<!doctype'' \<or>
     startsWith trimmed ''<html'' \<or> startsWith trimmed ''<HTML''"

definition detectContentType :: "string \<Rightarrow> string option \<Rightarrow> ContentType" where
  "detectContentType content url =
     (case detectFromUrl url of
        Some t \<Rightarrow> t
      | None \<Rightarrow>
         let trimmed = trim content in
         if startsHtmlDocument trimmed then Html
         else
           let lines = take 5 (split trimmed (CHR 0x0A));
               commasPerLine = map countCommas lines;
               allSameCommas = list_all (\<lambda>c. c = hd commasPerLine \<and> c > 0) commasPerLine
           in
           if length lines \<ge> 2 \<and> allSameCommas \<and> hd commasPerLine \<ge> 1 then Csv
           else if startsWith trimmed ''#'' \<or> reBold trimmed \<or> reBullet trimmed \<or>
                   reNumbered trimmed \<or> reLink trimmed \<or> startsWith trimmed ''```'' \<or>
                   startsWith trimmed ''>'' then Markdown
           else if reTag trimmed then Html
           else Markdown)"

subsection \<open>\<open>parseCSV\<close>\<close>

function parseLine :: "string \<Rightarrow> nat \<Rightarrow> string \<Rightarrow> bool \<Rightarrow> string list \<Rightarrow> string list" where
  \<comment> \<open>the \<^verbatim>\<open>for\<close> loop over one line, from index \<open>i\<close>, and the final \<^verbatim>\<open>push\<close>.
      \<^verbatim>\<open>line[i + 1]\<close> past the end is \<^verbatim>\<open>undefined\<close>, which is not a quote.\<close>
  "parseLine line i current inQuotes result =
     (if i < length line then
        (let char = line ! i in
         if char = CHR 0x22 then
           (if inQuotes \<and> i + 1 < length line \<and> line ! (i + 1) = CHR 0x22
            then parseLine line (i + 1 + 1) (current @ [CHR 0x22]) inQuotes result
            else parseLine line (i + 1) current (\<not> inQuotes) result)
         else if char = CHR '','' \<and> \<not> inQuotes
           then parseLine line (i + 1) [] inQuotes (result @ [trim current])
         else parseLine line (i + 1) (current @ [char]) inQuotes result)
      else result @ [trim current])"
  by pat_completeness auto
termination
  by (relation "measure (\<lambda>(line, i, current, inQuotes, result). length line - i)") auto

declare parseLine.simps [simp del]

definition parseCSV :: "string \<Rightarrow> string list list" where
  "parseCSV content =
     (let lines = split (trim content) (CHR 0x0A)
      in map (\<lambda>line. parseLine line 0 [] False []) lines)"

section \<open>WidgetConfigModal.tsx: path extraction, the JSON viewer and the form\<close>

subsection \<open>JSON values\<close>

text \<open>
  The value a test call returns. An object is the list of its entries as
  \<^verbatim>\<open>Object.entries\<close> enumerates them; the keys of an object are distinct
  (\<open>wfJson\<close>). The value \<^verbatim>\<open>undefined\<close>, which reading a missing property gives,
  is \<open>None\<close> of \<^typ>\<open>'a option\<close>.
\<close>

datatype json =
    JNull
  | JBool bool
  | JNum real
  | JStr string
  | JArr "json list"
  | JObj "(string \<times> json) list"

fun wfJson :: "json \<Rightarrow> bool" where
  "wfJson (JArr xs) \<longleftrightarrow> list_all wfJson xs"
| "wfJson (JObj kvs) \<longleftrightarrow> distinct (map fst kvs) \<and> list_all (\<lambda>kv. wfJson (snd kv)) kvs"
| "wfJson _ \<longleftrightarrow> True"

fun truthy :: "json \<Rightarrow> bool" where
  \<comment> \<open>\<^verbatim>\<open>if (v)\<close>\<close>
  "truthy JNull \<longleftrightarrow> False"
| "truthy (JBool b) \<longleftrightarrow> b"
| "truthy (JNum n) \<longleftrightarrow> n \<noteq> 0"
| "truthy (JStr s) \<longleftrightarrow> s \<noteq> []"
| "truthy (JArr xs) \<longleftrightarrow> True"
| "truthy (JObj kvs) \<longleftrightarrow> True"

subsection \<open>\<open>parseInt(key, 10)\<close> and \<open>`${index}`\<close>\<close>

definition digitValue :: "char \<Rightarrow> int" where
  "digitValue c = int (of_char c) - 48"

definition digitsValue :: "string \<Rightarrow> int" where
  "digitsValue ds = foldl (\<lambda>acc c. 10 * acc + digitValue c) 0 ds"

definition parseInt :: "string \<Rightarrow> int option" where
  \<comment> \<open>leading white space is skipped, one sign is read, then the longest run of decimal
      digits; \<open>None\<close> is \<^verbatim>\<open>NaN\<close> (no digit). What follows the digits is ignored.\<close>
  "parseInt s =
     (let S = dropWhile isWhiteSpace s;
          sign = (if S \<noteq> [] \<and> hd S = CHR ''-'' then - 1 else 1);
          S' = (if S \<noteq> [] \<and> (hd S = CHR ''+'' \<or> hd S = CHR ''-'') then tl S else S);
          Z = takeWhile isDigit S'
      in if Z = [] then None else Some (sign * digitsValue Z))"

function toString :: "nat \<Rightarrow> string" where
  \<comment> \<open>the decimal digits of an array index\<close>
  "toString n = (if n < 10 then [char_of (48 + n)] else toString (n div 10) @ [char_of (48 + n mod 10)])"
  by pat_completeness auto
termination
  by (relation "measure id") auto

declare toString.simps [simp del]

subsection \<open>\<open>extractValueFromPath\<close>\<close>

definition arrayGet :: "json list \<Rightarrow> int \<Rightarrow> json option" where
  \<comment> \<open>\<^verbatim>\<open>result[index]\<close> on an array: \<^verbatim>\<open>undefined\<close> outside \<open>0 .. length - 1\<close>\<close>
  "arrayGet xs index = (if 0 \<le> index \<and> nat index < length xs then Some (xs ! nat index) else None)"

fun extractLoop :: "json option \<Rightarrow> string list \<Rightarrow> string + json option" where
  \<comment> \<open>the \<^verbatim>\<open>for (const key of keys)\<close> loop: \<open>Inl\<close> is an early \<^verbatim>\<open>return\<close>,
      \<open>Inr\<close> the value of \<^verbatim>\<open>result\<close> when the keys are used up. Only an array or an
      object is truthy with \<^verbatim>\<open>typeof result === 'object'\<close>. A key that an object
      does not own reads as \<^verbatim>\<open>undefined\<close>: the properties every object inherits are
      functions or \<^verbatim>\<open>null\<close>, on which the function returns the empty string just as
      on \<^verbatim>\<open>undefined\<close>.\<close>
  "extractLoop result [] = Inr result"
| "extractLoop result (key # keys) =
     (case result of
        Some (JArr xs) \<Rightarrow>
          (case parseInt key of
             Some index \<Rightarrow> extractLoop (arrayGet xs index) keys
           | None \<Rightarrow> Inl [])
      | Some (JObj kvs) \<Rightarrow> extractLoop (map_of kvs key) keys
      | _ \<Rightarrow> Inl [])"

fun stringOrEmpty :: "json option \<Rightarrow> string" where
  \<comment> \<open>\<^verbatim>\<open>typeof result === 'string' ? result : ''\<close>\<close>
  "stringOrEmpty (Some (JStr s)) = s"
| "stringOrEmpty _ = []"

definition extractValueFromPath :: "json \<Rightarrow> string \<Rightarrow> string" where
  "extractValueFromPath data path =
     (let keys = split path (CHR ''.'')
      in case extractLoop (Some data) keys of
           Inl s \<Rightarrow> s
         | Inr result \<Rightarrow> stringOrEmpty result)"

fun dotFree :: "json \<Rightarrow> bool" where
  \<comment> \<open>no key of an object, at any depth, contains a dot\<close>
  "dotFree (JArr xs) \<longleftrightarrow> list_all dotFree xs"
| "dotFree (JObj kvs) \<longleftrightarrow> list_all (\<lambda>kv. CHR ''.'' \<notin> set (fst kv) \<and> dotFree (snd kv)) kvs"
| "dotFree _ \<longleftrightarrow> True"

fun noEmptyKey :: "json \<Rightarrow> bool" where
  \<comment> \<open>the value is not an object with the empty string among its own keys\<close>
  "noEmptyKey (JObj kvs) \<longleftrightarrow> [] \<notin> set (map fst kvs)"
| "noEmptyKey _ \<longleftrightarrow> True"

subsection \<open>\<open>JsonViewer\<close>\<close>

datatype label = IndexLabel | KeyLabel

text \<open>
  The rows that \<open>JsonViewer\<close> renders below a value, at every depth: the label of the
  row (the key of an object, with a click handler that reports the path, or the index
  of an array, without one), the path built for the row, and the value rendered in it
  by the nested \<open>JsonViewer\<close>. The property \<^verbatim>\<open>depth\<close> is not used by the component and
  is left out.
\<close>

function JsonViewer :: "json \<Rightarrow> string \<Rightarrow> (label \<times> string \<times> json) list" where
  "JsonViewer (JArr xs) path =
     concat (map (\<lambda>(index, item).
        let p = (if path \<noteq> [] then path @ ''.'' @ toString index else toString index)
        in (IndexLabel, p, item) # JsonViewer item p) (List.enumerate 0 xs))"
| "JsonViewer (JObj entries) path =
     concat (map (\<lambda>(key, val).
        let currentPath = (if path \<noteq> [] then path @ ''.'' @ key else key)
        in (KeyLabel, currentPath, val) # JsonViewer val currentPath) entries)"
| "JsonViewer JNull path = []"
| "JsonViewer (JBool b) path = []"
| "JsonViewer (JNum n) path = []"
| "JsonViewer (JStr s) path = []"
  by pat_completeness auto
termination
proof (relation "measure (\<lambda>(v, path). size v)", goal_cases)
  case 1
  show ?case by simp
next
  case (2 xs path x index item)
  then have "item \<in> set xs"
    by (auto simp: in_set_enumerate_eq)
  then have "size item \<le> size_list size xs"
    by (simp add: size_list_estimation')
  then show ?case by simp
next
  case (3 entries path x key val)
  then have "(key, val) \<in> set entries" by simp
  then have "size_prod (\<lambda>_. 0) size (key, val) \<le> size_list (size_prod (\<lambda>_. 0) size) entries"
    by (rule size_list_estimation') simp
  then show ?case by simp
qed

definition isUrl :: "string \<Rightarrow> bool" where
  \<comment> \<open>\<^verbatim>\<open>s.startsWith('http://') || s.startsWith('https://')\<close>\<close>
  "isUrl s \<longleftrightarrow> startsWith s ''http://'' \<or> startsWith s ''https://''"

subsection \<open>The state of the modal, \<open>handlePathClick\<close> and \<open>handleSubmit\<close>\<close>

record modal =
  name :: string
  apiEndpoint :: string
  apiKey :: string
  apiKeyHeader :: string
  reportId :: string
  responseUrlPath :: string
  contentUrl :: string
  saving :: bool
  testing :: bool
  testResult :: "string option"
  testError :: "string option"
  testData :: json

definition handlePathClick :: "modal \<Rightarrow> string \<Rightarrow> modal" where
  "handlePathClick st path =
     (let st' = st\<lparr>responseUrlPath := path\<rparr> in
      if truthy (testData st) then
        (let url = extractValueFromPath (testData st) path in
         if url \<noteq> [] \<and> (startsWith url ''http://'' \<or> startsWith url ''https://'')
         then st'\<lparr>contentUrl := url\<rparr> else st')
      else st')"

definition hexDigit :: "nat \<Rightarrow> char" where
  "hexDigit n = (if n < 10 then char_of (48 + n) else char_of (87 + n))"

definition quoteChar :: "char \<Rightarrow> string" where
  \<comment> \<open>one character inside the string literal that \<^verbatim>\<open>JSON.stringify\<close> writes\<close>
  "quoteChar c =
     (let n = of_char c :: nat in
      if n = 8 then [CHR 0x5C, CHR ''b'']
      else if n = 9 then [CHR 0x5C, CHR ''t'']
      else if n = 10 then [CHR 0x5C, CHR ''n'']
      else if n = 12 then [CHR 0x5C, CHR ''f'']
      else if n = 13 then [CHR 0x5C, CHR ''r'']
      else if n = 34 then [CHR 0x5C, CHR 0x22]
      else if n = 92 then [CHR 0x5C, CHR 0x5C]
      else if n < 32 then [CHR 0x5C, CHR ''u'', CHR ''0'', CHR ''0'', hexDigit (n div 16), hexDigit (n mod 16)]
      else [c])"

definition getRequestBody :: "modal \<Rightarrow> string" where
  \<comment> \<open>\<^verbatim>\<open>JSON.stringify({ report_id: reportId.trim() })\<close>, or the empty string\<close>
  "getRequestBody st =
     (if trim (reportId st) = [] then []
      else [CHR 0x7B, CHR 0x22] @ ''report_id'' @ [CHR 0x22, CHR '':'', CHR 0x22]
           @ concat (map quoteChar (trim (reportId st))) @ [CHR 0x22, CHR 0x7D])"

record WidgetUpdate =
  name_u :: "string option"
  api_endpoint_u :: "string option"
  api_key_u :: "string option"
  api_key_header_u :: "string option"
  request_body_u :: "string option"
  response_url_path_u :: "string option"
  content_url_u :: "string option"

record WidgetCreate =
  name_c :: string
  api_endpoint_c :: string
  api_key_c :: "string option"
  api_key_header_c :: "string option"
  request_body_c :: "string option"
  response_url_path_c :: string
  content_url_c :: string

datatype saved = Update WidgetUpdate | Create WidgetCreate

definition handleSubmit :: "bool \<Rightarrow> modal \<Rightarrow> saved \<times> modal" where
  \<comment> \<open>the argument of \<^verbatim>\<open>onSave\<close> and the state afterwards; \<open>isEditing\<close> is
      \<^verbatim>\<open>!!widget\<close>. An absent optional field is \<open>None\<close>; the fields \<^verbatim>\<open>layout\<close> and
      \<^verbatim>\<open>enabled\<close> are never written by the form and are left out of the records.\<close>
  "handleSubmit isEditing st =
     (let requestBody = getRequestBody st in
      if isEditing then
        (let data = \<lparr> name_u = Some (name st),
                       api_endpoint_u = Some (apiEndpoint st),
                       api_key_u = None,
                       api_key_header_u = Some (apiKeyHeader st),
                       request_body_u = Some requestBody,
                       response_url_path_u = Some (responseUrlPath st),
                       content_url_u = Some (contentUrl st) \<rparr>;
             data' = (if apiKey st \<noteq> [] then data\<lparr>api_key_u := Some (apiKey st)\<rparr> else data)
         in (Update data', st\<lparr>saving := False\<rparr>))
      else
        (Create \<lparr> name_c = name st,
                  api_endpoint_c = apiEndpoint st,
                  api_key_c = Some (apiKey st),
                  api_key_header_c = Some (apiKeyHeader st),
                  request_body_c = Some requestBody,
                  response_url_path_c = responseUrlPath st,
                  content_url_c = contentUrl st \<rparr>,
         st\<lparr>saving := False\<rparr>))"

section \<open>HtmlWidget.tsx: the content effect of \<open>HtmlWidget\<close>\<close>

record WidgetContent =
  \<comment> \<open>\<^verbatim>\<open>null\<close> is \<open>None\<close>; the fields \<^verbatim>\<open>id\<close> and \<^verbatim>\<open>name\<close> are not read by the component\<close>
  content_url :: "string option"
  html_content :: "string option"
  error :: "string option"

datatype outcome =
    Resolved WidgetContent
  | Rejected "string option"
    \<comment> \<open>the promise of \<^verbatim>\<open>fetchWidgetContent\<close> rejects: the message of an \<^verbatim>\<open>Error\<close>,
        or \<open>None\<close> for any other thrown value\<close>

record widgetState =
  \<comment> \<open>the five \<^verbatim>\<open>useState\<close> cells of \<open>HtmlWidget\<close>\<close>
  w_content :: "string option"
  w_contentUrl :: "string option"
  w_contentType :: ContentType
  w_error :: "string option"
  w_loading :: bool

definition nonEmpty :: "string option \<Rightarrow> bool" where
  \<comment> \<open>truthiness of a \<^verbatim>\<open>string | null\<close>\<close>
  "nonEmpty s \<longleftrightarrow> (case s of None \<Rightarrow> False | Some t \<Rightarrow> t \<noteq> [])"

definition loadContentBegin :: "widgetState \<Rightarrow> widgetState" where
  \<comment> \<open>\<open>loadContent\<close> up to the \<^verbatim>\<open>await\<close>\<close>
  "loadContentBegin st = st\<lparr>w_loading := True, w_error := None\<rparr>"

definition loadContentResume :: "bool \<Rightarrow> outcome \<Rightarrow> widgetState \<Rightarrow> widgetState" where
  \<comment> \<open>\<open>loadContent\<close> from the \<^verbatim>\<open>await\<close> on, with the value of \<^verbatim>\<open>cancelled\<close> then,
      the \<^verbatim>\<open>finally\<close> block included\<close>
  "loadContentResume cancelled out st =
     (if cancelled then st
      else
        (let st' =
           (case out of
              Resolved result \<Rightarrow>
                if nonEmpty (error result) then
                  st\<lparr>w_error := error result, w_content := None, w_contentUrl := None\<rparr>
                else if nonEmpty (content_url result) \<and> isImageUrl (the (content_url result)) then
                  st\<lparr>w_contentUrl := content_url result, w_contentType := Image,
                     w_content := None, w_error := None\<rparr>
                else if nonEmpty (html_content result) then
                  st\<lparr>w_content := html_content result, w_contentUrl := content_url result,
                     w_contentType := detectContentType (the (html_content result))
                        (if nonEmpty (content_url result) then content_url result else None),
                     w_error := None\<rparr>
                else
                  st\<lparr>w_error := Some ''No content received'', w_content := None,
                     w_contentUrl := None\<rparr>
            | Rejected err \<Rightarrow>
                st\<lparr>w_error := Some (case err of Some message \<Rightarrow> message
                                       | None \<Rightarrow> ''Failed to load content''),
                   w_content := None, w_contentUrl := None\<rparr>)
         in st'\<lparr>w_loading := False\<rparr>))"

text \<open>
  One mounted \<open>HtmlWidget\<close>: its state and the closures of the runs of its effect, each
  with the widget id it fetches and its own variable \<^verbatim>\<open>cancelled\<close>. React runs the
  cleanup of the previous run before it runs the effect again; a fetch settles at any
  later moment.
\<close>

record component =
  view :: widgetState
  runs :: "(string \<times> bool) list"

datatype event =
    Effect string
    \<comment> \<open>the effect runs for this \<^verbatim>\<open>widgetId\<close>, after the cleanup of the run before\<close>
  | Settle nat outcome
    \<comment> \<open>the fetch of the run with this number settles\<close>

definition cleanup :: "(string \<times> bool) list \<Rightarrow> (string \<times> bool) list" where
  \<comment> \<open>\<^verbatim>\<open>cancelled = true\<close> in the closure of the latest run\<close>
  "cleanup rs = (if rs = [] then [] else butlast rs @ [(fst (last rs), True)])"

fun react :: "component \<Rightarrow> event \<Rightarrow> component" where
  "react c (Effect widgetId) =
     c\<lparr>runs := cleanup (runs c) @ [(widgetId, False)], view := loadContentBegin (view c)\<rparr>"
| "react c (Settle k out) =
     (if k < length (runs c) then c\<lparr>view := loadContentResume (snd (runs c ! k)) out (view c)\<rparr>
      else c)"

definition firstThenSecond :: "component \<Rightarrow> string \<Rightarrow> outcome \<Rightarrow> outcome \<Rightarrow> widgetState" where
  \<comment> \<open>the effect runs twice for \<open>W\<close>; the superseded fetch settles with \<open>o1\<close>, then the
      second fetch with \<open>o2\<close>\<close>
  "firstThenSecond c W o1 o2 =
     view (foldl react c [Effect W, Effect W,
                          Settle (length (runs c)) o1, Settle (Suc (length (runs c))) o2])"

definition secondThenFirst :: "component \<Rightarrow> string \<Rightarrow> outcome \<Rightarrow> outcome \<Rightarrow> widgetState" where
  \<comment> \<open>the same two runs; the second fetch settles with \<open>o2\<close>, then the superseded one
      with \<open>o1\<close>\<close>
  "secondThenFirst c W o1 o2 =
     view (foldl react c [Effect W, Effect W,
                          Settle (Suc (length (runs c))) o2, Settle (length (runs c)) o1])"

definition exampleComponent :: component where
  \<comment> \<open>a widget just mounted: the initial values of its \<^verbatim>\<open>useState\<close> cells, no run yet\<close>
  "exampleComponent =
     \<lparr> view = \<lparr> w_content = None, w_contentUrl = None, w_contentType = Unknown,
                 w_error = None, w_loading = True \<rparr>,
       runs = [] \<rparr>"

definition staleResult :: WidgetContent where
  "staleResult = \<lparr> content_url = Some ''/old.html'',
                    html_content = Some ''<html>old</html>'', error = None \<rparr>"

definition freshResult :: WidgetContent where
  "freshResult = \<lparr> content_url = Some ''/new'',
                    html_content = Some ''a,b\<newline>1,2'', error = None \<rparr>"

section \<open>Dashboard.tsx: debounced layout persistence\<close>

record LayoutItem =
  \<comment> \<open>an item of the grid library's \<^verbatim>\<open>Layout\<close>: \<^verbatim>\<open>i, x, y, w, h, minW?, minH?\<close>\<close>
  item_i :: string
  item_x :: int
  item_y :: int
  item_w :: int
  item_h :: int
  item_minW :: "int option"
  item_minH :: "int option"

record Layout =
  \<comment> \<open>\<^verbatim>\<open>Layout\<close> of the widgets API: \<^verbatim>\<open>x, y, w, h, minW, minH\<close>\<close>
  layout_x :: int
  layout_y :: int
  layout_w :: int
  layout_h :: int
  layout_minW :: int
  layout_minH :: int

record Widget =
  \<comment> \<open>the fields of a widget that the dashboard reads; the spread \<^verbatim>\<open>...widget\<close>
      keeps every other field\<close>
  widget_id :: string
  widget_name :: string
  widget_layout :: Layout

record dashboard =
  widgets :: "Widget list"
  pendingLayoutRef :: "LayoutItem list option"
  saveTimeoutRef :: "nat option"
  timers :: "(nat \<times> nat) list"
    \<comment> \<open>the window's pending timers for the save callback: handle and due time (ms)\<close>
  nextTimer :: nat
    \<comment> \<open>the next timer handle; handles are positive\<close>
  bulkCalls :: "(string \<times> Layout) list list"
    \<comment> \<open>the arguments of the calls of \<^verbatim>\<open>bulkUpdateLayout\<close> so far, in order\<close>

definition layoutUpdates :: "LayoutItem list \<Rightarrow> (string \<times> Layout) list" where
  \<comment> \<open>the constant \<^verbatim>\<open>layoutUpdates\<close> of \<open>saveLayout\<close>\<close>
  "layoutUpdates layout = map (\<lambda>item.
      (item_i item,
       \<lparr> layout_x = item_x item, layout_y = item_y item,
         layout_w = item_w item, layout_h = item_h item,
         layout_minW = (case item_minW item of None \<Rightarrow> 2 | Some m \<Rightarrow> m),
         layout_minH = (case item_minH item of None \<Rightarrow> 2 | Some m \<Rightarrow> m) \<rparr>)) layout"

definition saveLayout :: "LayoutItem list \<Rightarrow> dashboard \<Rightarrow> dashboard" where
  \<comment> \<open>the call of \<^verbatim>\<open>bulkUpdateLayout\<close>; its failure is logged and changes nothing\<close>
  "saveLayout layout st = st\<lparr>bulkCalls := bulkCalls st @ [layoutUpdates layout]\<rparr>"

definition timerCallback :: "dashboard \<Rightarrow> dashboard" where
  \<comment> \<open>the function given to \<^verbatim>\<open>setTimeout\<close>; an array is truthy also when empty\<close>
  "timerCallback st =
     (case pendingLayoutRef st of
        Some pending \<Rightarrow> (saveLayout pending st)\<lparr>pendingLayoutRef := None\<rparr>
      | None \<Rightarrow> st)"

definition clearTimeout :: "nat \<Rightarrow> dashboard \<Rightarrow> dashboard" where
  "clearTimeout h st = st\<lparr>timers := filter (\<lambda>(h', due). h' \<noteq> h) (timers st)\<rparr>"

definition setTimeout :: "nat \<Rightarrow> nat \<Rightarrow> dashboard \<Rightarrow> nat \<times> dashboard" where
  \<comment> \<open>\<^verbatim>\<open>window.setTimeout(callback, delay)\<close> at the time \<open>now\<close>: the new handle and the state\<close>
  "setTimeout now delay st =
     (nextTimer st, st\<lparr>timers := timers st @ [(nextTimer st, now + delay)],
                       nextTimer := nextTimer st + 1\<rparr>)"

definition handleLayoutChange :: "nat \<Rightarrow> LayoutItem list \<Rightarrow> dashboard \<Rightarrow> dashboard" where
  "handleLayoutChange now newLayout st =
     (let st1 = st\<lparr>widgets := map (\<lambda>widget.
                   (case find (\<lambda>l. item_i l = widget_id widget) newLayout of
                      Some layoutItem \<Rightarrow>
                        widget\<lparr>widget_layout :=
                          \<lparr> layout_x = item_x layoutItem, layout_y = item_y layoutItem,
                            layout_w = item_w layoutItem, layout_h = item_h layoutItem,
                            layout_minW = layout_minW (widget_layout widget),
                            layout_minH = layout_minH (widget_layout widget) \<rparr>\<rparr>
                    | None \<Rightarrow> widget)) (widgets st)\<rparr>;
          st2 = st1\<lparr>pendingLayoutRef := Some newLayout\<rparr>;
          st3 = (case saveTimeoutRef st2 of
                   Some h \<Rightarrow> if h \<noteq> 0 then clearTimeout h st2 else st2
                 | None \<Rightarrow> st2);
          (h', st4) = setTimeout now 500 st3
      in st4\<lparr>saveTimeoutRef := Some h'\<rparr>)"

text \<open>
  The event loop. Time is counted in milliseconds. A timer runs its callback at its due
  time, and before a layout change that arrives at that same time; timers that are due
  run in the order in which they were set.
\<close>

definition advance :: "nat \<Rightarrow> dashboard \<Rightarrow> dashboard" where
  \<comment> \<open>the timers due up to the time \<open>now\<close> fire\<close>
  "advance now st =
     (let due = filter (\<lambda>(h, d). d \<le> now) (timers st);
          st' = st\<lparr>timers := filter (\<lambda>(h, d). \<not> d \<le> now) (timers st)\<rparr>
      in fold (\<lambda>_. timerCallback) due st')"

fun run :: "(nat \<times> LayoutItem list) list \<Rightarrow> dashboard \<Rightarrow> dashboard" where
  \<comment> \<open>layout changes, each with its time of arrival\<close>
  "run [] st = st"
| "run ((now, newLayout) # evs) st = run evs (handleLayoutChange now newLayout (advance now st))"

definition quiesce :: "dashboard \<Rightarrow> dashboard" where
  \<comment> \<open>no further change arrives: every pending timer fires\<close>
  "quiesce st = fold (\<lambda>_. timerCallback) (timers st) (st\<lparr>timers := []\<rparr>)"

definition initial :: "Widget list \<Rightarrow> dashboard" where
  "initial ws = \<lparr> widgets = ws, pendingLayoutRef = None, saveTimeoutRef = None,
                  timers = [], nextTimer = 1, bulkCalls = [] \<rparr>"

fun gapsBelow :: "nat \<Rightarrow> (nat \<times> 'a) list \<Rightarrow> bool" where
  \<comment> \<open>times in order, consecutive ones less than \<open>d\<close> apart\<close>
  "gapsBelow d (e1 # e2 # evs) \<longleftrightarrow> fst e1 \<le> fst e2 \<and> fst e2 < fst e1 + d \<and> gapsBelow d (e2 # evs)"
| "gapsBelow d _ \<longleftrightarrow> True"

fun inOrder :: "(nat \<times> 'a) list \<Rightarrow> bool" where
  "inOrder (e1 # e2 # evs) \<longleftrightarrow> fst e1 \<le> fst e2 \<and> inOrder (e2 # evs)"
| "inOrder _ \<longleftrightarrow> True"

fun quietEnds :: "nat \<Rightarrow> (nat \<times> 'a) list \<Rightarrow> (nat \<times> 'a) list" where
  \<comment> \<open>the events followed by a gap of at least \<open>d\<close>, and the last event\<close>
  "quietEnds d (e1 # e2 # evs) =
     (if fst e1 + d \<le> fst e2 then e1 # quietEnds d (e2 # evs) else quietEnds d (e2 # evs))"
| "quietEnds d evs = evs"

definition armed :: "dashboard \<Rightarrow> nat \<Rightarrow> LayoutItem list \<Rightarrow> bool" where
  \<comment> \<open>the state after a layout change at the time \<open>t0\<close> with the snapshot \<open>l0\<close>:
      that snapshot is pending and one timer is set, due 500 ms later\<close>
  "armed st t0 l0 \<longleftrightarrow>
     (\<exists>h. 0 < h \<and> h < nextTimer st \<and> timers st = [(h, t0 + 500)] \<and>
          saveTimeoutRef st = Some h \<and> pendingLayoutRef st = Some l0)"

definition exampleItem :: "int \<Rightarrow> LayoutItem" where
  "exampleItem k = \<lparr> item_i = ''w1'', item_x = k, item_y = 0, item_w = 4, item_h = 3,
                     item_minW = None, item_minH = Some 3 \<rparr>"

section \<open>Path segments and example values\<close>

definition segments :: "string \<Rightarrow> string list" where
  \<comment> \<open>the keys into which \<open>extractValueFromPath\<close> splits the path a \<open>JsonViewer\<close> was
      given; the viewer at the top has the empty path and no key\<close>
  "segments path = (if path = [] then [] else split path (CHR ''.''))"

definition examplePayload :: json where
  "examplePayload = JObj [(''data'', JObj [(''url'', JStr ''https://x/y.pdf'')])]"

definition examplePayload42 :: json where
  "examplePayload42 =
     JObj [(''data'', JObj [(''url'', JStr ''https://x/y.pdf''), (''pages'', JNum 42)])]"

definition dottedPayload :: json where
  "dottedPayload = JObj [(''a.b'', JStr ''x'')]"

definition emptyKeyPayload :: json where
  "emptyKeyPayload = JObj [([], JObj [(''b'', JStr ''x'')])]"

definition exampleModal :: "json \<Rightarrow> modal" where
  "exampleModal d =
     \<lparr> name = ''Report'', apiEndpoint = ''http://localhost:8006/run'', apiKey = [],
       apiKeyHeader = ''X-API-Key'', reportId = ''r1'', responseUrlPath = ''url'',
       contentUrl = ''http://old/z.pdf'', saving = False, testing = False,
       testResult = None, testError = None, testData = d \<rparr>"

section \<open>The CSV rule as the specification words it\<close>

definition specCsvRule :: "string \<Rightarrow> bool" where
  \<comment> \<open>up to the first five non-empty lines of the trimmed content all have the same,
      strictly positive, number of commas\<close>
  "specCsvRule content =
     (let sampled = take 5 (filter (\<lambda>l. l \<noteq> []) (split (trim content) (CHR 0x0A)))
      in list_all (\<lambda>l. countCommas l = countCommas (hd sampled) \<and> 0 < countCommas l) sampled)"

section \<open>Properties of the CSV parser\<close>

lemma split_nonempty: "split s sep \<noteq> []"
  by (induction s) auto

lemma split_no_sep: "l \<in> set (split s sep) \<Longrightarrow> sep \<notin> set l"
proof (induction s arbitrary: l)
  case Nil
  then show ?case by simp
next
  case (Cons c cs)
  show ?case
  proof (cases "c = sep")
    case True
    with Cons show ?thesis by auto
  next
    case False
    obtain h t where ht: "split cs sep = h # t"
      using split_nonempty [of cs sep] by (cases "split cs sep") auto
    with Cons False show ?thesis by auto
  qed
qed

lemma set_trim: "set (trim s) \<subseteq> set s"
proof -
  have "set (trim s) \<subseteq> set (rev (dropWhile isWhiteSpace s))"
    unfolding trim_def using set_dropWhileD by fastforce
  also have "\<dots> \<subseteq> set s"
    using set_dropWhileD by fastforce
  finally show ?thesis .
qed

lemma parseLine_chars:
  "set line \<subseteq> S \<Longrightarrow> set current \<subseteq> S \<Longrightarrow> (\<forall>f \<in> set result. set f \<subseteq> S) \<Longrightarrow>
   \<forall>f \<in> set (parseLine line i current inQuotes result). set f \<subseteq> S"
proof (induction line i current inQuotes result rule: parseLine.induct)
  case (1 line i current inQuotes result)
  have tr: "set (trim current) \<subseteq> S"
    using set_trim [of current] "1.prems"(2) by blast
  show ?case
  proof (cases "i < length line")
    case False
    with "1.prems" tr show ?thesis
      by (subst parseLine.simps) auto
  next
    case True
    then have ch: "line ! i \<in> S"
      using "1.prems"(1) by (meson nth_mem subsetD)
    note prems = "1.prems"
    consider (esc) "line ! i = CHR 0x22" "inQuotes \<and> i + 1 < length line \<and> line ! (i + 1) = CHR 0x22"
      | (quote) "line ! i = CHR 0x22" "\<not> (inQuotes \<and> i + 1 < length line \<and> line ! (i + 1) = CHR 0x22)"
      | (comma) "line ! i \<noteq> CHR 0x22" "line ! i = CHR '','' \<and> \<not> inQuotes"
      | (other) "line ! i \<noteq> CHR 0x22" "\<not> (line ! i = CHR '','' \<and> \<not> inQuotes)"
      by blast
    then show ?thesis
    proof cases
      case esc
      have "\<forall>f \<in> set (parseLine line (i + 1 + 1) (current @ [CHR 0x22]) inQuotes result). set f \<subseteq> S"
        using "1.IH"(1) [OF True refl esc(1) esc(2)] prems ch esc(1) by simp
      then show ?thesis
        using True esc by (subst parseLine.simps) simp
    next
      case quote
      have "\<forall>f \<in> set (parseLine line (i + 1) current (\<not> inQuotes) result). set f \<subseteq> S"
        using "1.IH"(2) [OF True refl quote(1) quote(2)] prems by simp
      then show ?thesis
        using True quote by (subst parseLine.simps) auto
    next
      case comma
      have "\<forall>f \<in> set (parseLine line (i + 1) [] inQuotes (result @ [trim current])). set f \<subseteq> S"
        using "1.IH"(3) [OF True refl comma(1) comma(2)] prems tr by simp
      then show ?thesis
        using True comma by (subst parseLine.simps) simp
    next
      case other
      have "\<forall>f \<in> set (parseLine line (i + 1) (current @ [line ! i]) inQuotes result). set f \<subseteq> S"
        using "1.IH"(4) [OF True refl other(1) other(2)] prems ch by simp
      then show ?thesis
        using True other by (subst parseLine.simps) auto
    qed
  qed
qed

text \<open>
  Claim C6, as amended. Parsing the two lines \<^verbatim>\<open>a,b\<close> and \<^verbatim>\<open>1,2\<close> gives the rows
  \<open>[a, b]\<close> and \<open>[1, 2]\<close>. Parsing the one line that is the quoted field
  \<^verbatim>\<open>"a,""b,c"""\<close> gives one row with the one field \<^verbatim>\<open>a,"b,c"\<close>: the comma inside the
  quotes does not separate, and each of the two doubled quotes is one literal quote,
  so the field ends with a quote.
\<close>

theorem parseCSV_examples:
  \<open>parseCSV ''a,b\<newline>1,2'' = [[''a'', ''b''], [''1'', ''2'']] \<and>
   parseCSV ''"a,""b,c"""'' = [[''a,"b,c"'']]\<close>
  by code_simp

text \<open>
  Claim C6 as stated fails: the field parsed from \<^verbatim>\<open>"a,""b,c"""\<close> is not
  \<^verbatim>\<open>a,"b,c\<close>, which lacks the second literal quote.
\<close>

theorem parseCSV_quoted_field_counterexample:
  \<open>parseCSV ''"a,""b,c"""'' \<noteq> [[''a,"b,c'']]\<close>
  by code_simp

text \<open>
  Claim C10. \<open>parseCSV\<close> returns one row for each line that splitting the trimmed text at
  the newline characters gives, and no field of any row contains a newline: the text is
  split before any quote is looked at, so a newline inside an open quoted field ends
  the row.
\<close>

theorem parseCSV_rows_and_newlines:
  "length (parseCSV content) = length (split (trim content) (CHR 0x0A)) \<and>
   (\<forall>row \<in> set (parseCSV content). \<forall>field \<in> set row. CHR 0x0A \<notin> set field)"
proof -
  have "CHR 0x0A \<notin> set field"
    if "row \<in> set (parseCSV content)" "field \<in> set row" for row field
  proof -
    from that(1) obtain line where l: "line \<in> set (split (trim content) (CHR 0x0A))"
      and r: "row = parseLine line 0 [] False []"
      by (auto simp: parseCSV_def)
    have "set field \<subseteq> set line"
      using parseLine_chars [of line "set line" "[]" "[]" 0 False] that(2) r by simp
    with split_no_sep [OF l] show ?thesis by blast
  qed
  then show ?thesis by (simp add: parseCSV_def)
qed

theorem parseCSV_rows_and_newlines_witness:
  \<open>parseCSV ''"a\<newline>b",c'' = [[''a''], [''b,c'']] \<and>
   length (split (trim ''"a\<newline>b",c'') (CHR 0x0A)) = 2 \<and>
   CHR 0x0A \<notin> set ''a'' \<and> CHR 0x0A \<notin> set ''b,c''\<close>
proof -
  have rows: \<open>parseCSV ''"a\<newline>b",c'' = [[''a''], [''b,c'']]\<close>
    by code_simp
  from parseCSV_rows_and_newlines [of \<open>''"a\<newline>b",c''\<close>] rows show ?thesis
    by simp
qed

section \<open>Properties of the content classifier\<close>

lemma lowerChar_question: "lowerChar c = CHR ''?'' \<longleftrightarrow> c = CHR ''?''"
proof
  assume "c = CHR ''?''"
  then show "lowerChar c = CHR ''?''" by (simp add: lowerChar_def)
next
  assume a: "lowerChar c = CHR ''?''"
  show "c = CHR ''?''"
  proof (cases "(65 \<le> (of_char c :: nat) \<and> (of_char c :: nat) \<le> 90) \<or> (192 \<le> (of_char c :: nat) \<and> (of_char c :: nat) \<le> 222 \<and> (of_char c :: nat) \<noteq> 215)")
    case False
    with a show ?thesis by (simp add: lowerChar_def Let_def)
  next
    case True
    define n :: nat where "n = of_char c"
    from True a have "char_of (n + 32) = CHR ''?''"
      by (simp add: lowerChar_def Let_def n_def)
    then have "of_char (char_of (n + 32) :: char) = (of_char (CHR ''?'') :: nat)"
      by simp
    then have m: "(n + 32) mod 256 = 63"
      by (simp add: of_char_of)
    from True have "n + 32 < 256" "65 \<le> n"
      by (auto simp: n_def)
    with m show ?thesis by simp
  qed
qed

lemma hd_split_stop:
  "sep \<notin> set xs \<Longrightarrow> q = [] \<or> hd q = sep \<Longrightarrow> hd (split (xs @ q) sep) = xs"
proof (induction xs)
  case Nil
  then show ?case by (cases q) auto
next
  case (Cons x xs)
  then show ?case by auto
qed

lemma toLowerCase_question: "CHR ''?'' \<in> set (toLowerCase s) \<longleftrightarrow> CHR ''?'' \<in> set s"
proof -
  have "(CHR ''?'' = lowerChar x) = (x = CHR ''?'')" for x
    using lowerChar_question [of x] by auto
  then show ?thesis
    by (simp add: toLowerCase_def image_iff)
qed

text \<open>
  Claim C7. Whatever the content, a source URL whose part before the first question
  mark ends in one of the image extensions, in any mix of upper and lower case, is
  classified as an image: the URL is \<open>base @ e @ query\<close>, where \<open>e\<close> is the extension
  as written, \<open>base\<close> has no question mark, and \<open>query\<close> is empty or begins with the
  question mark. This holds also for content that is Markdown by its structure.
\<close>

theorem image_extension_wins:
  assumes ext: "toLowerCase e \<in> set IMAGE_EXTENSIONS"
    and base: "CHR ''?'' \<notin> set base"
    and query: "query = [] \<or> hd query = CHR ''?''"
  shows "detectContentType content (Some (base @ e @ query)) = Image"
proof -
  have noq: "CHR ''?'' \<notin> set (toLowerCase e)"
    using ext by (auto simp: IMAGE_EXTENSIONS_def)
  have ne: "e \<noteq> []"
    using ext by (auto simp: IMAGE_EXTENSIONS_def toLowerCase_def)
  have q': "toLowerCase query = [] \<or> hd (toLowerCase query) = CHR ''?''"
    using query by (cases query) (auto simp: toLowerCase_def lowerChar_question)
  have "CHR ''?'' \<notin> set (toLowerCase base @ toLowerCase e)"
    using noq base by (simp add: toLowerCase_question)
  then have "hd (split ((toLowerCase base @ toLowerCase e) @ toLowerCase query) (CHR ''?''))
      = toLowerCase base @ toLowerCase e"
    using q' by (rule hd_split_stop)
  then have lower: "hd (split (toLowerCase (base @ e @ query)) (CHR ''?'')) = toLowerCase base @ toLowerCase e"
    by (simp add: toLowerCase_def)
  have "list_ex (\<lambda>ext. endsWith (toLowerCase base @ toLowerCase e) ext) IMAGE_EXTENSIONS"
    unfolding list_ex_iff endsWith_def using ext by (intro bexI [of _ "toLowerCase e"]) (auto simp: suffix_def)
  with lower ne show ?thesis
    by (simp add: detectContentType_def detectFromUrl_def Let_def)
qed

theorem image_extension_wins_witness:
  "detectContentType ''# Title'' None = Markdown \<and>
   detectContentType ''# Title'' (Some ''foo.PNG?x=1'') = Image"
proof -
  have "detectContentType ''# Title'' (Some (''foo'' @ ''.PNG'' @ ''?x=1'')) = Image"
  proof (rule image_extension_wins)
    show "toLowerCase ''.PNG'' \<in> set IMAGE_EXTENSIONS" by code_simp
  qed simp_all
  moreover have "detectContentType ''# Title'' None = Markdown"
    by code_simp
  ultimately show ?thesis by simp
qed

text \<open>
  Claim C2, as amended. When the URL block does not return and the trimmed content does
  not start an HTML document, the lines sampled are the first five lines of the trimmed
  content, empty ones included; if there are at least two of them and each has the same,
  strictly positive, number of commas, the content is classified as CSV.
\<close>

theorem csv_rule:
  assumes "detectFromUrl url = None"
    and "\<not> startsHtmlDocument (trim content)"
    and "sampled = take 5 (split (trim content) (CHR 0x0A))"
    and "2 \<le> length sampled"
    and "\<forall>l \<in> set sampled. countCommas l = countCommas (hd sampled) \<and> 0 < countCommas l"
  shows "detectContentType content url = Csv"
proof -
  have ne: "sampled \<noteq> []" using assms(4) by auto
  then have hd: "hd (map countCommas sampled) = countCommas (hd sampled)"
    by (simp add: hd_map)
  have "hd sampled \<in> set sampled"
    using ne by simp
  then have pos: "0 < countCommas (hd sampled)"
    using assms(5) by blast
  have all: "list_all (\<lambda>c. c = hd (map countCommas sampled) \<and> c > 0) (map countCommas sampled)"
    using assms(5) hd pos by (simp add: list_all_iff)
  have "hd (map countCommas sampled) \<ge> 1"
    using hd pos by simp
  with all assms(1,2,4) show ?thesis
    unfolding detectContentType_def Let_def assms(3) [symmetric] by simp
qed

theorem csv_rule_witness:
  "detectFromUrl None = None \<and> \<not> startsHtmlDocument (trim ''a,b\<newline>1,2'') \<and>
   take 5 (split (trim ''a,b\<newline>1,2'') (CHR 0x0A)) = [''a,b'', ''1,2''] \<and>
   detectContentType ''a,b\<newline>1,2'' None = Csv"
proof -
  have a: "detectFromUrl None = None" by code_simp
  have b: "\<not> startsHtmlDocument (trim ''a,b\<newline>1,2'')" by code_simp
  have c: "[''a,b'', ''1,2''] = take 5 (split (trim ''a,b\<newline>1,2'') (CHR 0x0A))" by code_simp
  have d: "2 \<le> length [''a,b'', ''1,2'']" by simp
  have e: "\<forall>l \<in> set [''a,b'', ''1,2'']. countCommas l = countCommas (hd [''a,b'', ''1,2'']) \<and> 0 < countCommas l"
    by (simp add: countCommas_def)
  from csv_rule [OF a b c d e] a b c show ?thesis by simp
qed

text \<open>
  Claim C2 as stated fails on a text of one line with a comma, and on a text with an
  empty line between two lines with one comma each: the rule as the specification words
  it holds of both, no earlier rule fires, and neither is classified as CSV.
\<close>

theorem csv_rule_counterexample:
  "specCsvRule ''a,b'' \<and> detectFromUrl None = None \<and> \<not> startsHtmlDocument (trim ''a,b'') \<and>
   detectContentType ''a,b'' None = Markdown \<and>
   specCsvRule ''a,b\<newline>\<newline>c,d'' \<and> \<not> startsHtmlDocument (trim ''a,b\<newline>\<newline>c,d'') \<and>
   detectContentType ''a,b\<newline>\<newline>c,d'' None = Markdown"
  by code_simp

section \<open>Properties of the path extraction, the viewer and the form\<close>

lemma extractLoop_append:
  "extractLoop r (pre @ rest) =
     (case extractLoop r pre of Inl s \<Rightarrow> Inl s | Inr r' \<Rightarrow> extractLoop r' rest)"
proof (induction pre arbitrary: r)
  case Nil
  show ?case by simp
next
  case (Cons key pre)
  show ?case
  proof (cases r)
    case None
    then show ?thesis by simp
  next
    case (Some v)
    then show ?thesis
      using Cons.IH by (cases v) (auto split: option.splits)
  qed
qed

lemma split_single: "sep \<notin> set b \<Longrightarrow> split b sep = [b]"
  by (induction b) auto

lemma split_append_seg: "sep \<notin> set b \<Longrightarrow> split (a @ sep # b) sep = split a sep @ [b]"
proof (induction a)
  case Nil
  then show ?case by (simp add: split_single)
next
  case (Cons c a)
  then show ?case
    using split_nonempty [of a sep] by (cases "split a sep") auto
qed

lemma digit_char: "k < 10 \<Longrightarrow> isDigit (char_of (48 + k)) \<and> digitValue (char_of (48 + k)) = int k"
  by (simp add: isDigit_def digitValue_def of_char_of)

lemma toString_digits: "\<forall>c \<in> set (toString n). isDigit c"
proof (induction n rule: toString.induct)
  case (1 n)
  show ?case
  proof (cases "n < 10")
    case True
    then show ?thesis
      using digit_char [of n] by (subst toString.simps) simp
  next
    case False
    then show ?thesis
      using "1.IH" digit_char [of "n mod 10"] by (subst toString.simps) simp
  qed
qed

lemma toString_nonempty: "toString n \<noteq> []"
  by (subst toString.simps) simp

lemma digitsValue_snoc: "digitsValue (ds @ [c]) = 10 * digitsValue ds + digitValue c"
  by (simp add: digitsValue_def)

lemma toString_value: "digitsValue (toString n) = int n"
proof (induction n rule: toString.induct)
  case (1 n)
  show ?case
  proof (cases "n < 10")
    case True
    then show ?thesis
      using digit_char [of n] by (subst toString.simps) (simp add: digitsValue_def)
  next
    case False
    then have "digitsValue (toString n) = 10 * int (n div 10) + int (n mod 10)"
      using "1.IH" digit_char [of "n mod 10"]
      by (subst toString.simps) (simp add: digitsValue_snoc)
    then show ?thesis by (simp add: zdiv_int zmod_int)
  qed
qed

lemma digit_plain: "isDigit c \<Longrightarrow> \<not> isWhiteSpace c \<and> c \<noteq> CHR ''+'' \<and> c \<noteq> CHR ''-'' \<and> c \<noteq> CHR ''.''"
  by (auto simp: isDigit_def isWhiteSpace_def)

lemma parseInt_digits:
  assumes "ds \<noteq> []" "\<forall>c \<in> set ds. isDigit c"
  shows "parseInt ds = Some (digitsValue ds)"
proof -
  from assms have "isDigit (hd ds)"
    by (cases ds) auto
  then have h: "\<not> isWhiteSpace (hd ds)" "hd ds \<noteq> CHR ''+''" "hd ds \<noteq> CHR ''-''"
    using digit_plain by blast+
  have dw: "dropWhile isWhiteSpace ds = ds"
    using assms(1) h(1) by (cases ds) auto
  have tw: "takeWhile isDigit ds = ds"
    using assms(2) by (simp add: takeWhile_eq_all_conv)
  show ?thesis
    unfolding parseInt_def Let_def dw by (simp add: h(2,3) tw assms(1))
qed

lemma parseInt_toString: "parseInt (toString n) = Some (int n)"
  using parseInt_digits [OF toString_nonempty toString_digits] by (simp add: toString_value)

lemma toString_no_dot: "CHR ''.'' \<notin> set (toString n)"
  using toString_digits [of n] digit_plain by blast

lemma child_segments:
  assumes "CHR ''.'' \<notin> set k" "path \<noteq> [] \<or> k \<noteq> []"
  shows "(if path \<noteq> [] then path @ ''.'' @ k else k) \<noteq> [] \<and>
    split (if path \<noteq> [] then path @ ''.'' @ k else k) (CHR ''.'') = segments path @ [k]"
  using assms by (auto simp: segments_def split_single split_append_seg)

lemma viewer_reaches:
  "wfJson cur \<Longrightarrow> dotFree cur \<Longrightarrow> (path = [] \<longrightarrow> noEmptyKey cur) \<Longrightarrow>
   extractLoop r0 (segments path) = Inr (Some cur) \<Longrightarrow>
   (lbl, p, sub) \<in> set (JsonViewer cur path) \<Longrightarrow>
   extractLoop r0 (split p (CHR ''.'')) = Inr (Some sub)"
proof (induction cur path arbitrary: lbl p sub rule: JsonViewer.induct)
  case (1 xs path)
  from "1.prems"(5) obtain index item where
    mem: "(index, item) \<in> set (List.enumerate 0 xs)" and
    sub: "(lbl, p, sub) = (IndexLabel, (if path \<noteq> [] then path @ ''.'' @ toString index else toString index), item)
       \<or> (lbl, p, sub) \<in> set (JsonViewer item (if path \<noteq> [] then path @ ''.'' @ toString index else toString index))"
    by (auto simp: Let_def)
  define q where "q = (if path \<noteq> [] then path @ ''.'' @ toString index else toString index)"
  from mem have idx: "index < length xs" "xs ! index = item"
    by (auto simp: in_set_enumerate_eq)
  have q: "q \<noteq> []" "split q (CHR ''.'') = segments path @ [toString index]"
    unfolding q_def using child_segments [OF toString_no_dot, of path index] toString_nonempty by auto
  have reach: "extractLoop r0 (split q (CHR ''.'')) = Inr (Some item)"
    unfolding q(2) extractLoop_append "1.prems"(4)
    using idx by (simp add: parseInt_toString arrayGet_def)
  from sub show ?case
  proof
    assume "(lbl, p, sub) = (IndexLabel, (if path \<noteq> [] then path @ ''.'' @ toString index else toString index), item)"
    with reach show ?thesis by (simp add: q_def)
  next
    assume in_child: "(lbl, p, sub) \<in> set (JsonViewer item (if path \<noteq> [] then path @ ''.'' @ toString index else toString index))"
    have item: "item \<in> set xs" using idx by auto
    have wf: "wfJson item" "dotFree item"
      using "1.prems"(1,2) item by (auto simp: list_all_iff)
    have seg: "extractLoop r0 (segments q) = Inr (Some item)"
      using reach q(1) by (simp add: segments_def)
    show ?thesis
      using "1.IH" [OF mem refl q_def [symmetric, THEN sym] wf(1) wf(2) _ seg] in_child q(1)
      by (simp add: q_def)
  qed
next
  case (2 entries path)
  from "2.prems"(5) obtain key val where
    mem: "(key, val) \<in> set entries" and
    sub: "(lbl, p, sub) = (KeyLabel, (if path \<noteq> [] then path @ ''.'' @ key else key), val)
       \<or> (lbl, p, sub) \<in> set (JsonViewer val (if path \<noteq> [] then path @ ''.'' @ key else key))"
    by (auto simp: Let_def)
  define q where "q = (if path \<noteq> [] then path @ ''.'' @ key else key)"
  have nodot: "CHR ''.'' \<notin> set key" and wf: "wfJson val" "dotFree val"
    using "2.prems"(1,2) mem by (auto simp: list_all_iff)
  have nonempty: "path \<noteq> [] \<or> key \<noteq> []"
    using "2.prems"(3) mem by force
  have look: "map_of entries key = Some val"
    using "2.prems"(1) mem by simp
  have q: "q \<noteq> []" "split q (CHR ''.'') = segments path @ [key]"
    unfolding q_def using child_segments [OF nodot nonempty] by auto
  have reach: "extractLoop r0 (split q (CHR ''.'')) = Inr (Some val)"
    unfolding q(2) extractLoop_append "2.prems"(4)
    using look by simp
  from sub show ?case
  proof
    assume "(lbl, p, sub) = (KeyLabel, (if path \<noteq> [] then path @ ''.'' @ key else key), val)"
    with reach show ?thesis by (simp add: q_def)
  next
    assume in_child: "(lbl, p, sub) \<in> set (JsonViewer val (if path \<noteq> [] then path @ ''.'' @ key else key))"
    have seg: "extractLoop r0 (segments q) = Inr (Some val)"
      using reach q(1) by (simp add: segments_def)
    show ?thesis
      using "2.IH" [OF mem refl q_def [symmetric, THEN sym] wf(1) wf(2) _ seg] in_child q(1)
      by (simp add: q_def)
  qed
qed simp_all

lemma extractLoop_undefined: "extractLoop None keys = (if keys = [] then Inr None else Inl [])"
  by (cases keys) auto

lemma extract_falsy: "\<not> truthy d \<Longrightarrow> extractValueFromPath d p = []"
proof -
  assume f: "\<not> truthy d"
  obtain key keys where k: "split p (CHR ''.'') = key # keys"
    by (cases "split p (CHR ''.'')") (use split_nonempty in auto)
  from f have "extractLoop (Some d) (key # keys) = Inl []"
    by (cases d) auto
  with k show ?thesis by (simp add: extractValueFromPath_def)
qed

lemma arrayGet_outside: "i < 0 \<or> int (length xs) \<le> i \<Longrightarrow> arrayGet xs i = None"
  by (auto simp: arrayGet_def)

text \<open>
  Claim C1, as amended. Let the JSON value have distinct keys in every object, no dot
  inside any key, and no empty key at the top. For every row that \<open>JsonViewer\<close> renders
  below it, at any depth, for a key or an index, \<open>extractValueFromPath\<close> applied to the
  value and the path built for the row gives the value rendered in the row when that is
  a string, and the empty string when it is not.
\<close>

theorem viewer_paths_extract:
  assumes "wfJson v" and "dotFree v" and "noEmptyKey v"
    and "(lbl, p, sub) \<in> set (JsonViewer v [])"
  shows "extractValueFromPath v p = stringOrEmpty (Some sub)"
proof -
  have "extractLoop (Some v) (segments []) = Inr (Some v)"
    by (simp add: segments_def)
  from viewer_reaches [OF assms(1,2) _ this assms(4)] assms(3)
  have "extractLoop (Some v) (split p (CHR ''.'')) = Inr (Some sub)"
    by simp
  then show ?thesis
    by (simp add: extractValueFromPath_def)
qed

theorem viewer_paths_extract_witness:
  "wfJson examplePayload42 \<and> dotFree examplePayload42 \<and> noEmptyKey examplePayload42 \<and>
   (KeyLabel, ''data.url'', JStr ''https://x/y.pdf'') \<in> set (JsonViewer examplePayload42 []) \<and>
   extractValueFromPath examplePayload42 ''data.url'' = ''https://x/y.pdf'' \<and>
   (KeyLabel, ''data.pages'', JNum 42) \<in> set (JsonViewer examplePayload42 []) \<and>
   extractValueFromPath examplePayload42 ''data.pages'' = []"
proof -
  have a: "wfJson examplePayload42" and b: "dotFree examplePayload42"
    and c: "noEmptyKey examplePayload42"
    by (simp_all add: examplePayload42_def)
  have d: "(KeyLabel, ''data.url'', JStr ''https://x/y.pdf'') \<in> set (JsonViewer examplePayload42 [])"
    and e: "(KeyLabel, ''data.pages'', JNum 42) \<in> set (JsonViewer examplePayload42 [])"
    by (simp_all add: examplePayload42_def)
  from viewer_paths_extract [OF a b c d] viewer_paths_extract [OF a b c e] a b c d e
  show ?thesis by simp
qed

text \<open>
  Claim C1 as stated fails for a key with a dot: the viewer builds the path \<^verbatim>\<open>a.b\<close> for
  the key \<^verbatim>\<open>a.b\<close> of the object \<^verbatim>\<open>{"a.b": "x"}\<close>, and the extraction splits it into two
  keys and finds nothing. It fails as well below an empty key at the top, where the
  viewer builds the path \<^verbatim>\<open>b\<close> for the key \<^verbatim>\<open>b\<close> of \<^verbatim>\<open>{"": {"b": "x"}}\<close>.
\<close>

theorem viewer_paths_extract_counterexample:
  "wfJson dottedPayload \<and>
   (KeyLabel, ''a.b'', JStr ''x'') \<in> set (JsonViewer dottedPayload []) \<and>
   extractValueFromPath dottedPayload ''a.b'' = [] \<and>
   wfJson emptyKeyPayload \<and>
   (KeyLabel, ''b'', JStr ''x'') \<in> set (JsonViewer emptyKeyPayload []) \<and>
   extractValueFromPath emptyKeyPayload ''b'' = [] \<and>
   stringOrEmpty (Some (JStr ''x'')) = ''x''"
  by (simp add: dottedPayload_def emptyKeyPayload_def extractValueFromPath_def)

text \<open>
  Claim C8. Let the keys of the path be \<open>pre\<close>, then \<open>seg\<close>, then \<open>post\<close>, and let the loop
  arrive at the value \<open>cur\<close> after the keys \<open>pre\<close>. If \<open>cur\<close> is an array and \<open>seg\<close> does
  not parse as an integer, the result is the empty string; and likewise if \<open>seg\<close> parses
  to an index outside the array, if \<open>cur\<close> is an object without the key \<open>seg\<close>, or if
  \<open>cur\<close> is undefined, null, a boolean, a number or a string.
\<close>

theorem soft_failure:
  assumes "split path (CHR ''.'') = pre @ seg # post"
    and "extractLoop (Some v) pre = Inr cur"
    and "(\<exists>xs. cur = Some (JArr xs) \<and>
            (parseInt seg = None \<or> (\<exists>i. parseInt seg = Some i \<and> (i < 0 \<or> int (length xs) \<le> i))))
       \<or> (\<exists>kvs. cur = Some (JObj kvs) \<and> map_of kvs seg = None)
       \<or> cur = None \<or> cur = Some JNull \<or> (\<exists>b. cur = Some (JBool b)) \<or> (\<exists>n. cur = Some (JNum n))
       \<or> (\<exists>s. cur = Some (JStr s))"
  shows "extractValueFromPath v path = []"
proof -
  have step: "extractLoop cur (seg # post) = Inl [] \<or> extractLoop cur (seg # post) = Inr None"
    using assms(3) by (auto simp: arrayGet_outside extractLoop_undefined)
  have "extractLoop (Some v) (split path (CHR ''.'')) = extractLoop cur (seg # post)"
    unfolding assms(1) extractLoop_append assms(2) by simp
  with step show ?thesis
    by (auto simp: extractValueFromPath_def)
qed

theorem soft_failure_witness:
  "split ''items.x.url'' (CHR ''.'') = [''items''] @ ''x'' # [''url''] \<and>
   extractLoop (Some (JObj [(''items'', JArr [JObj [(''url'', JStr ''http://a/b'')]])])) [''items'']
     = Inr (Some (JArr [JObj [(''url'', JStr ''http://a/b'')]])) \<and>
   parseInt ''x'' = None \<and>
   extractValueFromPath (JObj [(''items'', JArr [JObj [(''url'', JStr ''http://a/b'')]])]) ''items.x.url'' = [] \<and>
   extractValueFromPath (JObj [(''items'', JArr [JObj [(''url'', JStr ''http://a/b'')]])]) ''items.0.url'' = ''http://a/b''"
proof -
  have a: "split ''items.x.url'' (CHR ''.'') = [''items''] @ ''x'' # [''url'']"
    by simp
  have b: "extractLoop (Some (JObj [(''items'', JArr [JObj [(''url'', JStr ''http://a/b'')]])])) [''items'']
     = Inr (Some (JArr [JObj [(''url'', JStr ''http://a/b'')]]))"
    by simp
  have c: "parseInt ''x'' = None"
    by (simp add: parseInt_def isWhiteSpace_def isDigit_def)
  have d: "extractValueFromPath (JObj [(''items'', JArr [JObj [(''url'', JStr ''http://a/b'')]])]) ''items.0.url'' = ''http://a/b''"
    by code_simp
  from soft_failure [OF a b] c a b d show ?thesis
    by simp
qed

text \<open>
  Claim C5. A path activation sets \<open>responseUrlPath\<close> to the path. If the extraction of
  the path from the stored payload gives a string that begins with \<^verbatim>\<open>http://\<close> or
  \<^verbatim>\<open>https://\<close>, that string becomes \<open>contentUrl\<close>; otherwise \<open>contentUrl\<close> is unchanged.
  With the payload \<^verbatim>\<open>{"data":{"url":"https://x/y.pdf"}}\<close>, the viewer builds the path
  \<^verbatim>\<open>data.url\<close> for the key \<^verbatim>\<open>url\<close>, and its click sets the path and the captured URL; with
  a key \<^verbatim>\<open>pages\<close> of value 42 beside it, the click on that key sets the path only.
\<close>

theorem path_click:
  "responseUrlPath (handlePathClick st path) = path \<and>
   (isUrl (extractValueFromPath (testData st) path) \<longrightarrow>
      contentUrl (handlePathClick st path) = extractValueFromPath (testData st) path) \<and>
   (\<not> isUrl (extractValueFromPath (testData st) path) \<longrightarrow>
      contentUrl (handlePathClick st path) = contentUrl st) \<and>
   (testData st = examplePayload \<longrightarrow>
      (KeyLabel, ''data.url'', JStr ''https://x/y.pdf'') \<in> set (JsonViewer examplePayload []) \<and>
      handlePathClick st ''data.url'' =
        st\<lparr>responseUrlPath := ''data.url'', contentUrl := ''https://x/y.pdf''\<rparr>) \<and>
   (testData st = examplePayload42 \<longrightarrow>
      (KeyLabel, ''data.pages'', JNum 42) \<in> set (JsonViewer examplePayload42 []) \<and>
      handlePathClick st ''data.pages'' = st\<lparr>responseUrlPath := ''data.pages''\<rparr>)"
proof -
  have nil: "\<not> isUrl []"
    by (simp add: isUrl_def startsWith_def)
  have general: "responseUrlPath (handlePathClick st path) = path \<and>
   (isUrl (extractValueFromPath (testData st) path) \<longrightarrow>
      contentUrl (handlePathClick st path) = extractValueFromPath (testData st) path) \<and>
   (\<not> isUrl (extractValueFromPath (testData st) path) \<longrightarrow>
      contentUrl (handlePathClick st path) = contentUrl st)"
  proof (cases "truthy (testData st)")
    case True
    then show ?thesis
      using nil by (auto simp: handlePathClick_def Let_def isUrl_def)
  next
    case False
    then have "extractValueFromPath (testData st) path = []"
      by (rule extract_falsy)
    with False nil show ?thesis
      by (simp add: handlePathClick_def Let_def)
  qed
  have url: "extractValueFromPath examplePayload ''data.url'' = ''https://x/y.pdf''"
    by (simp add: examplePayload_def extractValueFromPath_def)
  have pages: "extractValueFromPath examplePayload42 ''data.pages'' = []"
    by (simp add: examplePayload42_def extractValueFromPath_def)
  have ex1: "handlePathClick st ''data.url'' =
        st\<lparr>responseUrlPath := ''data.url'', contentUrl := ''https://x/y.pdf''\<rparr>"
    if "testData st = examplePayload"
    unfolding handlePathClick_def Let_def that url
    by (simp add: examplePayload_def startsWith_def)
  have ex2: "handlePathClick st ''data.pages'' = st\<lparr>responseUrlPath := ''data.pages''\<rparr>"
    if "testData st = examplePayload42"
    unfolding handlePathClick_def Let_def that pages
    by simp
  have rows: "(KeyLabel, ''data.url'', JStr ''https://x/y.pdf'') \<in> set (JsonViewer examplePayload [])"
    "(KeyLabel, ''data.pages'', JNum 42) \<in> set (JsonViewer examplePayload42 [])"
    by (simp_all add: examplePayload_def examplePayload42_def)
  from general ex1 ex2 rows show ?thesis
    by blast
qed

theorem path_click_witness:
  "testData (exampleModal examplePayload) = examplePayload \<and>
   isUrl (extractValueFromPath examplePayload ''data.url'') \<and>
   responseUrlPath (handlePathClick (exampleModal examplePayload) ''data.url'') = ''data.url'' \<and>
   contentUrl (handlePathClick (exampleModal examplePayload) ''data.url'') = ''https://x/y.pdf'' \<and>
   testData (exampleModal examplePayload42) = examplePayload42 \<and>
   \<not> isUrl (extractValueFromPath examplePayload42 ''data.pages'') \<and>
   responseUrlPath (handlePathClick (exampleModal examplePayload42) ''data.pages'') = ''data.pages'' \<and>
   contentUrl (handlePathClick (exampleModal examplePayload42) ''data.pages'') = ''http://old/z.pdf''"
proof -
  have t: "testData (exampleModal d) = d" "contentUrl (exampleModal d) = ''http://old/z.pdf''" for d
    by (simp_all add: exampleModal_def)
  have url: "extractValueFromPath examplePayload ''data.url'' = ''https://x/y.pdf''"
    by (simp add: examplePayload_def extractValueFromPath_def)
  have pages: "extractValueFromPath examplePayload42 ''data.pages'' = []"
    by (simp add: examplePayload42_def extractValueFromPath_def)
  have u: "isUrl ''https://x/y.pdf''" "\<not> isUrl []"
    by (simp_all add: isUrl_def startsWith_def)
  from path_click [of "exampleModal examplePayload" "''data.url''"]
       path_click [of "exampleModal examplePayload42" "''data.pages''"]
  show ?thesis
    by (simp add: t url pages u)
qed

text \<open>
  Claim C9. When the form is submitted for an existing widget, the update passed to
  \<open>onSave\<close> has no \<open>api_key\<close> field if the key input is empty, and has the typed key as
  its \<open>api_key\<close> field if the input is not empty.
\<close>

theorem submit_key:
  "\<exists>data. fst (handleSubmit True st) = Update data \<and>
     (apiKey st = [] \<longrightarrow> api_key_u data = None) \<and>
     (apiKey st \<noteq> [] \<longrightarrow> api_key_u data = Some (apiKey st))"
  by (simp add: handleSubmit_def Let_def)

theorem submit_key_witness:
  \<open>apiKey (exampleModal JNull) = [] \<and>
   fst (handleSubmit True (exampleModal JNull)) =
     Update \<lparr> name_u = Some ''Report'', api_endpoint_u = Some ''http://localhost:8006/run'',
              api_key_u = None, api_key_header_u = Some ''X-API-Key'',
              request_body_u = Some ''{"report_id":"r1"}'', response_url_path_u = Some ''url'',
              content_url_u = Some ''http://old/z.pdf'' \<rparr> \<and>
   fst (handleSubmit True ((exampleModal JNull)\<lparr>apiKey := ''kwz_new''\<rparr>)) =
     Update \<lparr> name_u = Some ''Report'', api_endpoint_u = Some ''http://localhost:8006/run'',
              api_key_u = Some ''kwz_new'', api_key_header_u = Some ''X-API-Key'',
              request_body_u = Some ''{"report_id":"r1"}'', response_url_path_u = Some ''url'',
              content_url_u = Some ''http://old/z.pdf'' \<rparr>\<close>
proof -
  have body: \<open>getRequestBody (exampleModal JNull) = ''{"report_id":"r1"}''\<close>
    \<open>getRequestBody ((exampleModal JNull)\<lparr>apiKey := ''kwz_new''\<rparr>) = ''{"report_id":"r1"}''\<close>
    by code_simp+
  from submit_key [of "exampleModal JNull"] submit_key [of "(exampleModal JNull)\<lparr>apiKey := ''kwz_new''\<rparr>"]
  show ?thesis
    by (auto simp: handleSubmit_def Let_def body) (simp_all add: exampleModal_def)
qed

section \<open>Properties of the content effect and of the debounced save\<close>

lemma loadContentResume_cancelled: "loadContentResume True out st = st"
  by (simp add: loadContentResume_def)

lemma change_when_idle:
  assumes "timers st = []" "0 < nextTimer st"
  shows "armed (handleLayoutChange t l st) t l \<and> bulkCalls (handleLayoutChange t l st) = bulkCalls st"
  using assms
  by (auto simp: armed_def handleLayoutChange_def setTimeout_def clearTimeout_def Let_def
      split: option.splits)

lemma change_when_armed:
  assumes "armed st t0 l0"
  shows "armed (handleLayoutChange t l st) t l \<and> bulkCalls (handleLayoutChange t l st) = bulkCalls st"
  using assms
  by (auto simp: armed_def handleLayoutChange_def setTimeout_def clearTimeout_def Let_def
      split: option.splits)

lemma advance_early:
  assumes "armed st t0 l0" "t < t0 + 500"
  shows "advance t st = st"
  using assms by (auto simp: armed_def advance_def Let_def)

lemma advance_late:
  assumes "armed st t0 l0" "t0 + 500 \<le> t"
  shows "timers (advance t st) = [] \<and> 0 < nextTimer (advance t st) \<and>
         bulkCalls (advance t st) = bulkCalls st @ [layoutUpdates l0]"
  using assms by (auto simp: armed_def advance_def Let_def timerCallback_def saveLayout_def)

lemma quiesce_armed:
  assumes "armed st t0 l0"
  shows "bulkCalls (quiesce st) = bulkCalls st @ [layoutUpdates l0]"
  using assms by (auto simp: armed_def quiesce_def timerCallback_def saveLayout_def)

lemma run_armed:
  "armed st t0 l0 \<Longrightarrow> inOrder ((t0, l0) # evs) \<Longrightarrow>
   bulkCalls (quiesce (run evs st)) =
     bulkCalls st @ map (layoutUpdates \<circ> snd) (quietEnds 500 ((t0, l0) # evs))"
proof (induction evs arbitrary: st t0 l0)
  case Nil
  then show ?case by (simp add: quiesce_armed)
next
  case (Cons ev evs)
  obtain t l where ev: "ev = (t, l)" by (cases ev)
  from Cons.prems(2) ev have ord: "t0 \<le> t" "inOrder ((t, l) # evs)"
    by simp_all
  show ?case
  proof (cases "t0 + 500 \<le> t")
    case True
    from advance_late [OF Cons.prems(1) True]
    have idle: "timers (advance t st) = []" "0 < nextTimer (advance t st)"
      and calls: "bulkCalls (advance t st) = bulkCalls st @ [layoutUpdates l0]"
      by simp_all
    from change_when_idle [OF idle, of t l]
    have a: "armed (handleLayoutChange t l (advance t st)) t l"
      and c: "bulkCalls (handleLayoutChange t l (advance t st)) = bulkCalls (advance t st)"
      by simp_all
    from Cons.IH [OF a ord(2)] c calls True ev show ?thesis
      by simp
  next
    case False
    then have same: "advance t st = st"
      using advance_early [OF Cons.prems(1)] by simp
    from change_when_armed [OF Cons.prems(1), of t l]
    have a: "armed (handleLayoutChange t l st) t l"
      and c: "bulkCalls (handleLayoutChange t l st) = bulkCalls st"
      by simp_all
    from Cons.IH [OF a ord(2)] c same False ev show ?thesis
      by simp
  qed
qed

lemma run_initial:
  assumes "inOrder evs"
  shows "bulkCalls (quiesce (run evs (initial ws))) = map (layoutUpdates \<circ> snd) (quietEnds 500 evs)"
proof (cases evs)
  case Nil
  then show ?thesis by (simp add: quiesce_def initial_def)
next
  case (Cons ev evs')
  obtain t l where ev: "ev = (t, l)" by (cases ev)
  have idle: "timers (advance t (initial ws)) = []" "0 < nextTimer (advance t (initial ws))"
    "bulkCalls (advance t (initial ws)) = []"
    by (simp_all add: advance_def initial_def)
  from change_when_idle [OF idle(1,2), of t l]
  have a: "armed (handleLayoutChange t l (advance t (initial ws))) t l"
    and c: "bulkCalls (handleLayoutChange t l (advance t (initial ws))) = []"
    using idle(3) by simp_all
  from run_armed [OF a] assms Cons ev c show ?thesis
    by simp
qed

lemma gapsBelow_inOrder: "gapsBelow d evs \<Longrightarrow> inOrder evs"
  by (induction evs rule: inOrder.induct) auto

lemma gapsBelow_quietEnds: "gapsBelow d evs \<Longrightarrow> evs \<noteq> [] \<Longrightarrow> quietEnds d evs = [last evs]"
  by (induction d evs rule: quietEnds.induct) auto

lemma run_unbroken:
  "armed st t0 l0 \<Longrightarrow> gapsBelow 500 ((t0, l0) # evs) \<Longrightarrow> bulkCalls (run evs st) = bulkCalls st"
proof (induction evs arbitrary: st t0 l0)
  case Nil
  then show ?case by simp
next
  case (Cons ev evs)
  obtain t l where ev: "ev = (t, l)" by (cases ev)
  from Cons.prems(2) ev have gap: "t < t0 + 500" "gapsBelow 500 ((t, l) # evs)"
    by simp_all
  have same: "advance t st = st"
    using advance_early [OF Cons.prems(1) gap(1)] .
  from change_when_armed [OF Cons.prems(1), of t l]
  have a: "armed (handleLayoutChange t l st) t l"
    and c: "bulkCalls (handleLayoutChange t l st) = bulkCalls st"
    by simp_all
  from Cons.IH [OF a gap(2)] c same ev show ?case
    by simp
qed

lemma run_unbroken_initial:
  assumes "gapsBelow 500 evs"
  shows "bulkCalls (run evs (initial ws)) = []"
proof (cases evs)
  case Nil
  then show ?thesis by (simp add: initial_def)
next
  case (Cons ev evs')
  obtain t l where ev: "ev = (t, l)" by (cases ev)
  have idle: "timers (advance t (initial ws)) = []" "0 < nextTimer (advance t (initial ws))"
    "bulkCalls (advance t (initial ws)) = []"
    by (simp_all add: advance_def initial_def)
  from change_when_idle [OF idle(1,2), of t l]
  have a: "armed (handleLayoutChange t l (advance t (initial ws))) t l"
    and c: "bulkCalls (handleLayoutChange t l (advance t (initial ws))) = []"
    using idle(3) by simp_all
  from run_unbroken [OF a] assms Cons ev c show ?thesis
    by simp
qed

lemma race_views:
  "firstThenSecond c W o1 o2 = loadContentResume False o2 (loadContentBegin (view c))"
  "secondThenFirst c W o1 o2 = loadContentResume False o2 (loadContentBegin (view c))"
  by (simp_all add: firstThenSecond_def secondThenFirst_def cleanup_def nth_append
      loadContentBegin_def loadContentResume_cancelled)

lemma resume_rejected:
  "loadContentResume False (Rejected err) (loadContentBegin st) =
     st\<lparr>w_error := Some (case err of Some message \<Rightarrow> message | None \<Rightarrow> ''Failed to load content''),
        w_content := None, w_contentUrl := None, w_loading := False\<rparr>"
  by (simp add: loadContentResume_def loadContentBegin_def)

lemma resume_error:
  "nonEmpty (error r) \<Longrightarrow>
   loadContentResume False (Resolved r) (loadContentBegin st) =
     st\<lparr>w_error := error r, w_content := None, w_contentUrl := None, w_loading := False\<rparr>"
  by (simp add: loadContentResume_def loadContentBegin_def)

lemma resume_image:
  "\<not> nonEmpty (error r) \<Longrightarrow> nonEmpty (content_url r) \<and> isImageUrl (the (content_url r)) \<Longrightarrow>
   loadContentResume False (Resolved r) (loadContentBegin st) =
     \<lparr> w_content = None, w_contentUrl = content_url r, w_contentType = Image,
       w_error = None, w_loading = False \<rparr>"
  by (simp add: loadContentResume_def loadContentBegin_def)

lemma resume_text:
  "\<not> nonEmpty (error r) \<Longrightarrow> \<not> (nonEmpty (content_url r) \<and> isImageUrl (the (content_url r))) \<Longrightarrow>
   nonEmpty (html_content r) \<Longrightarrow>
   loadContentResume False (Resolved r) (loadContentBegin st) =
     \<lparr> w_content = html_content r, w_contentUrl = content_url r,
       w_contentType = detectContentType (the (html_content r))
                         (if nonEmpty (content_url r) then content_url r else None),
       w_error = None, w_loading = False \<rparr>"
  by (auto simp: loadContentResume_def loadContentBegin_def)

lemma resume_nothing:
  "\<not> nonEmpty (error r) \<Longrightarrow> \<not> (nonEmpty (content_url r) \<and> isImageUrl (the (content_url r))) \<Longrightarrow>
   \<not> nonEmpty (html_content r) \<Longrightarrow>
   loadContentResume False (Resolved r) (loadContentBegin st) =
     st\<lparr>w_error := Some ''No content received'', w_content := None, w_contentUrl := None,
        w_loading := False\<rparr>"
  by (auto simp: loadContentResume_def loadContentBegin_def)

text \<open>
  Claim C4. The effect of a mounted \<open>HtmlWidget\<close> runs for the widget \<open>W\<close> and, before
  its fetch settles, runs again for \<open>W\<close>. Whichever of the two fetches settles first,
  the state of the widget in the end is the one that the second fetch alone gives, and
  the outcome \<open>o1\<close> of the first fetch appears nowhere in it: the loading flag is off;
  if the second fetch fails, or its result carries an error or no content, the error is
  that of the second outcome and content and content URL are cleared; if its result has
  an image URL, the content URL is that URL and the type is image; otherwise content and
  content URL are those of the second result and the type is the one detected from them.
\<close>

theorem stale_fetch_discarded:
  "view (foldl react c [Effect W, Effect W, Settle (length (runs c)) o1, Settle (Suc (length (runs c))) o2])
     = loadContentResume False o2 (loadContentBegin (view c)) \<and>
   view (foldl react c [Effect W, Effect W, Settle (Suc (length (runs c))) o2, Settle (length (runs c)) o1])
     = loadContentResume False o2 (loadContentBegin (view c)) \<and>
   view (foldl react c [Effect W, Settle (length (runs c)) o2])
     = loadContentResume False o2 (loadContentBegin (view c)) \<and>
   (\<forall>final \<in> {firstThenSecond c W o1 o2, secondThenFirst c W o1 o2}.
      w_loading final = False \<and>
      (\<forall>err. o2 = Rejected err \<longrightarrow>
         final = (view c)\<lparr>w_error := Some (case err of Some message \<Rightarrow> message
                                                | None \<Rightarrow> ''Failed to load content''),
                         w_content := None, w_contentUrl := None, w_loading := False\<rparr>) \<and>
      (\<forall>r. o2 = Resolved r \<longrightarrow>
         (if nonEmpty (error r) then
            final = (view c)\<lparr>w_error := error r, w_content := None, w_contentUrl := None,
                            w_loading := False\<rparr>
          else if nonEmpty (content_url r) \<and> isImageUrl (the (content_url r)) then
            final = \<lparr> w_content = None, w_contentUrl = content_url r, w_contentType = Image,
                      w_error = None, w_loading = False \<rparr>
          else if nonEmpty (html_content r) then
            final = \<lparr> w_content = html_content r, w_contentUrl = content_url r,
                      w_contentType = detectContentType (the (html_content r))
                         (if nonEmpty (content_url r) then content_url r else None),
                      w_error = None, w_loading = False \<rparr>
          else
            final = (view c)\<lparr>w_error := Some ''No content received'', w_content := None,
                            w_contentUrl := None, w_loading := False\<rparr>)))"
proof -
  have orders: "view (foldl react c [Effect W, Effect W, Settle (length (runs c)) o1, Settle (Suc (length (runs c))) o2])
     = loadContentResume False o2 (loadContentBegin (view c))"
    "view (foldl react c [Effect W, Effect W, Settle (Suc (length (runs c))) o2, Settle (length (runs c)) o1])
     = loadContentResume False o2 (loadContentBegin (view c))"
    using race_views [of c W o1 o2] by (simp_all add: firstThenSecond_def secondThenFirst_def)
  have alone: "view (foldl react c [Effect W, Settle (length (runs c)) o2])
     = loadContentResume False o2 (loadContentBegin (view c))"
    by (simp add: cleanup_def nth_append)
  have loading: "w_loading (loadContentResume False o2 (loadContentBegin (view c))) = False"
    by (simp add: loadContentResume_def Let_def)
  have rejected: "loadContentResume False o2 (loadContentBegin (view c)) =
      (view c)\<lparr>w_error := Some (case err of Some message \<Rightarrow> message | None \<Rightarrow> ''Failed to load content''),
                w_content := None, w_contentUrl := None, w_loading := False\<rparr>"
    if "o2 = Rejected err" for err
    unfolding that by (rule resume_rejected)
  have resolved: "(if nonEmpty (error r) then
            loadContentResume False o2 (loadContentBegin (view c)) =
              (view c)\<lparr>w_error := error r, w_content := None, w_contentUrl := None,
                            w_loading := False\<rparr>
          else if nonEmpty (content_url r) \<and> isImageUrl (the (content_url r)) then
            loadContentResume False o2 (loadContentBegin (view c)) =
              \<lparr> w_content = None, w_contentUrl = content_url r, w_contentType = Image,
                      w_error = None, w_loading = False \<rparr>
          else if nonEmpty (html_content r) then
            loadContentResume False o2 (loadContentBegin (view c)) =
              \<lparr> w_content = html_content r, w_contentUrl = content_url r,
                      w_contentType = detectContentType (the (html_content r))
                         (if nonEmpty (content_url r) then content_url r else None),
                      w_error = None, w_loading = False \<rparr>
          else
            loadContentResume False o2 (loadContentBegin (view c)) =
              (view c)\<lparr>w_error := Some ''No content received'', w_content := None,
                            w_contentUrl := None, w_loading := False\<rparr>)"
    if "o2 = Resolved r" for r
  proof (cases "nonEmpty (error r)")
    case True
    then show ?thesis
      unfolding that using resume_error [OF True, of "view c"] by simp
  next
    case noError: False
    show ?thesis
    proof (cases "nonEmpty (content_url r) \<and> isImageUrl (the (content_url r))")
      case True
      then show ?thesis
        unfolding that using resume_image [OF noError True, of "view c"] noError by simp
    next
      case noImage: False
      show ?thesis
      proof (cases "nonEmpty (html_content r)")
        case True
        show ?thesis
          unfolding that resume_text [OF noError noImage True, of "view c"]
          using noError True by (simp add: noImage)
      next
        case False
        show ?thesis
          unfolding that resume_nothing [OF noError noImage False, of "view c"]
          using noError False by (simp add: noImage)
      qed
    qed
  qed
  have finals: "\<forall>final \<in> {firstThenSecond c W o1 o2, secondThenFirst c W o1 o2}.
      w_loading final = False \<and>
      (\<forall>err. o2 = Rejected err \<longrightarrow>
         final = (view c)\<lparr>w_error := Some (case err of Some message \<Rightarrow> message
                                                | None \<Rightarrow> ''Failed to load content''),
                         w_content := None, w_contentUrl := None, w_loading := False\<rparr>) \<and>
      (\<forall>r. o2 = Resolved r \<longrightarrow>
         (if nonEmpty (error r) then
            final = (view c)\<lparr>w_error := error r, w_content := None, w_contentUrl := None,
                            w_loading := False\<rparr>
          else if nonEmpty (content_url r) \<and> isImageUrl (the (content_url r)) then
            final = \<lparr> w_content = None, w_contentUrl = content_url r, w_contentType = Image,
                      w_error = None, w_loading = False \<rparr>
          else if nonEmpty (html_content r) then
            final = \<lparr> w_content = html_content r, w_contentUrl = content_url r,
                      w_contentType = detectContentType (the (html_content r))
                         (if nonEmpty (content_url r) then content_url r else None),
                      w_error = None, w_loading = False \<rparr>
          else
            final = (view c)\<lparr>w_error := Some ''No content received'', w_content := None,
                            w_contentUrl := None, w_loading := False\<rparr>))"
    unfolding race_views using loading rejected resolved by blast
  show ?thesis
    by (intro conjI orders alone finals)
qed

theorem stale_fetch_discarded_witness:
  "firstThenSecond exampleComponent ''w1'' (Resolved staleResult) (Resolved freshResult) =
     \<lparr> w_content = Some ''a,b\<newline>1,2'', w_contentUrl = Some ''/new'',
       w_contentType = Csv, w_error = None, w_loading = False \<rparr> \<and>
   secondThenFirst exampleComponent ''w1'' (Resolved staleResult) (Resolved freshResult) =
     \<lparr> w_content = Some ''a,b\<newline>1,2'', w_contentUrl = Some ''/new'',
       w_contentType = Csv, w_error = None, w_loading = False \<rparr> \<and>
   loadContentResume False (Resolved staleResult) (loadContentBegin (view exampleComponent)) =
     \<lparr> w_content = Some ''<html>old</html>'', w_contentUrl = Some ''/old.html'',
       w_contentType = Html, w_error = None, w_loading = False \<rparr> \<and>
   secondThenFirst exampleComponent ''w1'' (Resolved freshResult) (Rejected None) =
     \<lparr> w_content = None, w_contentUrl = None, w_contentType = Unknown,
       w_error = Some ''Failed to load content'', w_loading = False \<rparr>"
proof -
  have fresh: "error freshResult = None"
    "html_content freshResult = Some ''a,b\<newline>1,2''"
    "content_url freshResult = Some ''/new''"
    by (simp_all add: freshResult_def)
  have noImage: "\<not> isImageUrl ''/new''"
    by code_simp
  have stalekind: "detectContentType ''<html>old</html>'' (Some ''/old.html'') = Html"
    by code_simp
  have staleimg: "\<not> isImageUrl ''/old.html''"
    by code_simp
  have kind: "detectContentType ''a,b\<newline>1,2'' (Some ''/new'') = Csv"
    by code_simp
  have stale: "loadContentResume False (Resolved staleResult) (loadContentBegin (view exampleComponent)) =
     \<lparr> w_content = Some ''<html>old</html>'', w_contentUrl = Some ''/old.html'',
       w_contentType = Html, w_error = None, w_loading = False \<rparr>"
    by (simp add: loadContentResume_def loadContentBegin_def staleResult_def exampleComponent_def nonEmpty_def stalekind staleimg)
  have v: "view exampleComponent = \<lparr> w_content = None, w_contentUrl = None, w_contentType = Unknown,
                 w_error = None, w_loading = True \<rparr>"
    by (simp add: exampleComponent_def)
  note both = stale_fetch_discarded [of exampleComponent "''w1''" "Resolved staleResult"
      "Resolved freshResult", THEN conjunct2, THEN conjunct2, THEN conjunct2]
  note failed = stale_fetch_discarded [of exampleComponent "''w1''" "Resolved freshResult"
      "Rejected None", THEN conjunct2, THEN conjunct2, THEN conjunct2]
  have a: "firstThenSecond exampleComponent ''w1'' (Resolved staleResult) (Resolved freshResult) =
     \<lparr> w_content = Some ''a,b\<newline>1,2'', w_contentUrl = Some ''/new'',
       w_contentType = Csv, w_error = None, w_loading = False \<rparr>"
    using both [THEN bspec, of "firstThenSecond exampleComponent ''w1'' (Resolved staleResult) (Resolved freshResult)"]
    by (simp add: fresh kind noImage nonEmpty_def)
  have b: "secondThenFirst exampleComponent ''w1'' (Resolved staleResult) (Resolved freshResult) =
     \<lparr> w_content = Some ''a,b\<newline>1,2'', w_contentUrl = Some ''/new'',
       w_contentType = Csv, w_error = None, w_loading = False \<rparr>"
    using both [THEN bspec, of "secondThenFirst exampleComponent ''w1'' (Resolved staleResult) (Resolved freshResult)"]
    by (simp add: fresh kind noImage nonEmpty_def)
  have c: "secondThenFirst exampleComponent ''w1'' (Resolved freshResult) (Rejected None) =
     \<lparr> w_content = None, w_contentUrl = None, w_contentType = Unknown,
       w_error = Some ''Failed to load content'', w_loading = False \<rparr>"
    using failed [THEN bspec, of "secondThenFirst exampleComponent ''w1'' (Resolved freshResult) (Rejected None)"]
    by (simp add: v)
  from a b c stale show ?thesis
    by simp
qed

text \<open>
  Claim C3. Layout changes arrive at the times given, in order, on a dashboard that has
  just been mounted, and then no more. If each change comes less than 500 ms after the
  one before, \<open>bulkUpdateLayout\<close> is called once in all, with the snapshot of the last
  change. In general it is called once for each change that is followed by a gap of at
  least 500 ms or by no change at all, with the snapshot of that change, in that order.
\<close>

theorem debounce:
  "(evs \<noteq> [] \<and> gapsBelow 500 evs \<longrightarrow>
      bulkCalls (run evs (initial ws)) = [] \<and>
      bulkCalls (quiesce (run evs (initial ws))) = [layoutUpdates (snd (last evs))]) \<and>
   (inOrder evs \<longrightarrow>
      bulkCalls (quiesce (run evs (initial ws))) = map (layoutUpdates \<circ> snd) (quietEnds 500 evs))"
  using run_initial [of evs ws] gapsBelow_inOrder [of 500 evs] gapsBelow_quietEnds [of 500 evs]
    run_unbroken_initial [of evs ws]
  by auto

theorem debounce_witness:
  "gapsBelow 500 [(0, [exampleItem 1]), (100, [exampleItem 2]), (599, [exampleItem 3])] \<and>
   bulkCalls (quiesce (run [(0, [exampleItem 1]), (100, [exampleItem 2]), (599, [exampleItem 3])] (initial [])))
     = [[(''w1'', \<lparr> layout_x = 3, layout_y = 0, layout_w = 4, layout_h = 3,
                    layout_minW = 2, layout_minH = 3 \<rparr>)]] \<and>
   inOrder [(0, [exampleItem 1]), (100, [exampleItem 2]), (600, [exampleItem 3])] \<and>
   bulkCalls (quiesce (run [(0, [exampleItem 1]), (100, [exampleItem 2]), (600, [exampleItem 3])] (initial [])))
     = [[(''w1'', \<lparr> layout_x = 2, layout_y = 0, layout_w = 4, layout_h = 3,
                    layout_minW = 2, layout_minH = 3 \<rparr>)],
        [(''w1'', \<lparr> layout_x = 3, layout_y = 0, layout_w = 4, layout_h = 3,
                    layout_minW = 2, layout_minH = 3 \<rparr>)]]"
  using debounce [of "[(0, [exampleItem 1]), (100, [exampleItem 2]), (599, [exampleItem 3])]" "[]"]
    debounce [of "[(0, [exampleItem 1]), (100, [exampleItem 2]), (600, [exampleItem 3])]" "[]"]
  by (simp add: layoutUpdates_def exampleItem_def)

end
